theory Spec2Isabelle
  imports Complex_Main "HOL-Library.AList"
begin

section \<open>A Logo interpreter: lexer, parser and evaluator of \<^verbatim>\<open>logo.py\<close>\<close>

subsection \<open>Values and syntax trees\<close>

text \<open>
  A Python \<^verbatim>\<open>float\<close> is a double: a rational number, one of the two infinities, or
  not-a-number. The finite values are kept as the rational they denote (the two zeros
  coincide); nothing below rounds.
\<close>

datatype pyfloat = Finite rat | PosInf | NegInf | NaN

text \<open>
  An expression slot of a node holds what \<^verbatim>\<open>parse_expression\<close> returned: a float, an
  \<^verbatim>\<open>AstSymbolReference\<close>, or \<^verbatim>\<open>None\<close>.
\<close>

datatype expr = ENum pyfloat | ESym string | ENone

text \<open>
  The node classes. \<^verbatim>\<open>AstProcedure\<close> wraps its instruction list in an
  \<^verbatim>\<open>AstBlock\<close>, so its third field is the list of that block. \<open>NoInstruction\<close>
  is the \<^verbatim>\<open>None\<close> that \<^verbatim>\<open>parse_instruction\<close> returns when no branch matches.
\<close>

datatype node =
    Rotate expr
  | Forward expr
  | Backward expr
  | PenUp
  | PenDown
  | Repeat expr node
  | Block "node list"
  | Procedure string "string list" "node list"
  | ProcedureCall string "expr list"
  | NoInstruction

text \<open>
  What an environment can hold and an expression can evaluate to: \<^verbatim>\<open>None\<close>, a float,
  or an \<^verbatim>\<open>AstProcedure\<close> object (its name, formal parameters and body instructions).
\<close>

datatype pyval = VNone | VNum pyfloat | VProc string "string list" "node list"

text \<open>Python truthiness: \<^verbatim>\<open>None\<close> and zero are false, every other value here is true.\<close>

fun truthy :: "pyval \<Rightarrow> bool" where
  "truthy VNone = False"
| "truthy (VNum x) = (x \<noteq> Finite 0)"
| "truthy (VProc n ps b) = True"

record FilePosition =
  line_num :: nat
  char :: nat

datatype pyexn =
    LogoParserError string "FilePosition option"
  | RuntimeError string
  | TypeError
  | ValueError
  | OverflowError
  | AttributeError
  | AssertionError

subsection \<open>Environment\<close>

text \<open>
  \<^verbatim>\<open>class Environment\<close>: a dictionary \<^verbatim>\<open>_names\<close> (an association list in insertion
  order, as a Python dict is) and a reference to the parent. An environment value carries
  its whole parent chain; a function that mutates an environment returns the chain as it
  is afterwards.
\<close>

datatype environment = Environment (names: "(string \<times> pyval) list") (parent: "environment option")

definition set_name :: "environment \<Rightarrow> string \<Rightarrow> pyval \<Rightarrow> environment" where
  "set_name env name v = Environment (AList.update name v (names env)) (parent env)"

text \<open>
  \<^verbatim>\<open>if value := self._names.get(name): return value\<close> tests the value found, not
  whether one was found.
\<close>

fun resolve :: "environment \<Rightarrow> string \<Rightarrow> pyval" where
  "resolve (Environment ns par) name =
     (case map_of ns name of
        Some v \<Rightarrow>
          if truthy v then v
          else (case par of Some p \<Rightarrow> resolve p name | None \<Rightarrow> VNone)
      | None \<Rightarrow> (case par of Some p \<Rightarrow> resolve p name | None \<Rightarrow> VNone))"

definition create_child :: "environment \<Rightarrow> environment" where
  "create_child env = Environment [] (Some env)"

text \<open>The scopes of a chain, nearest first.\<close>

fun scopes :: "environment \<Rightarrow> (string \<times> pyval) list list" where
  "scopes (Environment ns par) = ns # (case par of Some p \<Rightarrow> scopes p | None \<Rightarrow> [])"

subsection \<open>Evaluator\<close>

fun evaluate_expression :: "expr \<Rightarrow> environment \<Rightarrow> pyval" where
  "evaluate_expression (ESym name) env = resolve env name"
| "evaluate_expression (ENum x) env = VNum x"
| "evaluate_expression ENone env = VNone"

text \<open>
  The turtle is outside the program. A call to it is a command applied to the device
  state; it gives the new state or raises, and then the state is taken as it was.
\<close>

datatype tcmd = TForward pyval | TBackward pyval | TLeft pyval | TPenup | TPendown

type_synonym 'd turtle = "tcmd \<Rightarrow> 'd \<Rightarrow> pyexn + 'd"

text \<open>
  The outcome of \<^verbatim>\<open>run\<close>: \<open>None\<close> when the recursion budget is used up; otherwise the
  exception raised, if any, with the environment and the device as they are at that time.
\<close>

type_synonym 'd outcome = "(pyexn option \<times> environment \<times> 'd) option"

definition turtle_call :: "'d turtle \<Rightarrow> tcmd \<Rightarrow> environment \<Rightarrow> 'd \<Rightarrow> 'd outcome" where
  "turtle_call T c env d =
     (case T c d of Inl e \<Rightarrow> Some (Some e, env, d) | Inr d' \<Rightarrow> Some (None, env, d'))"

text \<open>\<^verbatim>\<open>int(x)\<close> on a float rounds towards zero.\<close>

definition py_trunc :: "rat \<Rightarrow> int" where
  "py_trunc q = (if q < 0 then - \<lfloor>- q\<rfloor> else \<lfloor>q\<rfloor>)"

fun py_int :: "pyval \<Rightarrow> pyexn + int" where
  "py_int (VNum (Finite q)) = Inr (py_trunc q)"
| "py_int (VNum PosInf) = Inl OverflowError"
| "py_int (VNum NegInf) = Inl OverflowError"
| "py_int (VNum NaN) = Inl ValueError"
| "py_int VNone = Inl TypeError"
| "py_int (VProc n ps b) = Inl TypeError"

text \<open>\<^verbatim>\<open>for instruction in node.body: run(instruction, environment, turtle)\<close>\<close>

fun for_each ::
  "(node \<Rightarrow> environment \<Rightarrow> 'd \<Rightarrow> 'd outcome) \<Rightarrow> node list \<Rightarrow> environment \<Rightarrow> 'd \<Rightarrow> 'd outcome" where
  "for_each f [] env d = Some (None, env, d)"
| "for_each f (i # is) env d =
     (case f i env d of
        None \<Rightarrow> None
      | Some (Some e, env', d') \<Rightarrow> Some (Some e, env', d')
      | Some (None, env', d') \<Rightarrow> for_each f is env' d')"

text \<open>\<^verbatim>\<open>for i in range(n): run(node.block, environment, turtle)\<close>\<close>

fun for_range :: "nat \<Rightarrow> (environment \<Rightarrow> 'd \<Rightarrow> 'd outcome) \<Rightarrow> environment \<Rightarrow> 'd \<Rightarrow> 'd outcome" where
  "for_range 0 f env d = Some (None, env, d)"
| "for_range (Suc n) f env d =
     (case f env d of
        None \<Rightarrow> None
      | Some (Some e, env', d') \<Rightarrow> Some (Some e, env', d')
      | Some (None, env', d') \<Rightarrow> for_range n f env' d')"

text \<open>
  \<^verbatim>\<open>for name, argument in zip(procedure.arguments, call.arguments)\<close>: each argument is
  evaluated in \<open>env\<close> and stored in the child.
\<close>

fun bind_arguments :: "(string \<times> expr) list \<Rightarrow> environment \<Rightarrow> environment \<Rightarrow> environment" where
  "bind_arguments [] env child_env = child_env"
| "bind_arguments ((name, argument) # rest) env child_env =
     bind_arguments rest env (set_name child_env name (evaluate_expression argument env))"

text \<open>Decimal rendering of a count, as \<^verbatim>\<open>'{}'.format\<close> prints an \<^verbatim>\<open>int\<close>.\<close>

definition digit_char :: "nat \<Rightarrow> char" where
  "digit_char n = ''0123456789'' ! n"

function str_of_nat :: "nat \<Rightarrow> string" where
  "str_of_nat n = (if n < 10 then [digit_char n] else str_of_nat (n div 10) @ [digit_char (n mod 10)])"
  by pat_completeness auto
termination
  by (relation "measure id") auto

declare str_of_nat.simps [simp del]

definition cannot_find_message :: "string \<Rightarrow> string" where
  "cannot_find_message procedure_name = ''ERROR: cannot find the procedure '' @ procedure_name"

definition wrong_number_message :: "string \<Rightarrow> nat \<Rightarrow> nat \<Rightarrow> string" where
  "wrong_number_message name function_arity argument_passed =
     ''ERROR: wrong number of argument for the function '' @ [CHR 0x27] @ name @ [CHR 0x27]
       @ '' (needed '' @ str_of_nat function_arity @ '', passed '' @ str_of_nat argument_passed @ '')''"

text \<open>
  After a call the caller goes on with its own environment object, the one the child
  refers to as its parent: a write made through that reference would show here. The
  parent reference is set once, by \<^verbatim>\<open>create_child\<close>, so the second case is never
  taken (lemma \<open>run_keeps_parent\<close> below).
\<close>

definition caller_environment :: "environment \<Rightarrow> environment \<Rightarrow> environment" where
  "caller_environment child_env env = (case parent child_env of Some p \<Rightarrow> p | None \<Rightarrow> env)"

text \<open>
  \<^verbatim>\<open>run(node, environment, turtle)\<close>. The first argument bounds the depth of nested
  \<^verbatim>\<open>run\<close> calls; the command of the device is \<open>T\<close>, its state \<open>d\<close>.
\<close>

fun run :: "nat \<Rightarrow> 'd turtle \<Rightarrow> node \<Rightarrow> environment \<Rightarrow> 'd \<Rightarrow> 'd outcome" where
  "run 0 T node env d = None"
| "run (Suc k) T (Forward n) env d = turtle_call T (TForward (evaluate_expression n env)) env d"
| "run (Suc k) T (Backward n) env d = turtle_call T (TBackward (evaluate_expression n env)) env d"
| "run (Suc k) T (Rotate n) env d = turtle_call T (TLeft (evaluate_expression n env)) env d"
| "run (Suc k) T PenUp env d = turtle_call T TPenup env d"
| "run (Suc k) T PenDown env d = turtle_call T TPendown env d"
| "run (Suc k) T (Block body) env d = for_each (\<lambda>i e s. run k T i e s) body env d"
| "run (Suc k) T (Repeat times_expr block) env d =
     (case py_int (evaluate_expression times_expr env) of
        Inl e \<Rightarrow> Some (Some e, env, d)
      | Inr n \<Rightarrow> for_range (nat n) (\<lambda>e s. run k T block e s) env d)"
| "run (Suc k) T (Procedure name arguments body) env d =
     Some (None, set_name env name (VProc name arguments body), d)"
| "run (Suc k) T (ProcedureCall procedure_name arguments) env d =
     (let procedure = resolve env procedure_name in
      if \<not> truthy procedure then
        Some (Some (LogoParserError (cannot_find_message procedure_name) None), env, d)
      else
        (case procedure of
           VProc name formals body \<Rightarrow>
             if length formals \<noteq> length arguments then
               Some (Some (LogoParserError
                  (wrong_number_message name (length formals) (length arguments)) None), env, d)
             else
               (let child_env = bind_arguments (zip formals arguments) env (create_child env) in
                case run k T (Block body) child_env d of
                  None \<Rightarrow> None
                | Some (x, child_env', d') \<Rightarrow> Some (x, caller_environment child_env' env, d'))
         | _ \<Rightarrow> Some (Some AttributeError, env, d)))"
| "run (Suc k) T NoInstruction env d = Some (Some (RuntimeError (''Unknow instruction <class '' @ [CHR 0x27] @ ''NoneType'' @ [CHR 0x27] @ ''>'')), env, d)"


text \<open>A turtle that only records the commands it receives, for running examples.\<close>

definition record_turtle :: "tcmd list turtle" where
  "record_turtle c tr = Inr (tr @ [c])"

subsection \<open>Lexer\<close>

text \<open>
  The program text is a list of characters with code points below 256. The predicates
  below are \<^verbatim>\<open>str.isspace\<close>, \<^verbatim>\<open>str.isalpha\<close>, \<^verbatim>\<open>str.isnumeric\<close> and
  \<^verbatim>\<open>str.isalnum\<close> on that range.
\<close>

definition isspace :: "char \<Rightarrow> bool" where
  "isspace c = (let n = (of_char c :: nat) in
     (9 \<le> n \<and> n \<le> 13) \<or> (28 \<le> n \<and> n \<le> 32) \<or> n = 133 \<or> n = 160)"

definition isalpha :: "char \<Rightarrow> bool" where
  "isalpha c = (let n = (of_char c :: nat) in
     (65 \<le> n \<and> n \<le> 90) \<or> (97 \<le> n \<and> n \<le> 122) \<or> n = 170 \<or> n = 181 \<or> n = 186
     \<or> (192 \<le> n \<and> n \<le> 214) \<or> (216 \<le> n \<and> n \<le> 246) \<or> (248 \<le> n \<and> n \<le> 255))"

definition isnumeric :: "char \<Rightarrow> bool" where
  "isnumeric c = (let n = (of_char c :: nat) in
     (48 \<le> n \<and> n \<le> 57) \<or> n = 178 \<or> n = 179 \<or> n = 185 \<or> (188 \<le> n \<and> n \<le> 190))"

definition isalnum :: "char \<Rightarrow> bool" where
  "isalnum c = (isalpha c \<or> isnumeric c)"

definition is_identifier_char :: "char \<Rightarrow> bool" where
  "is_identifier_char c = (isalnum c \<or> c = CHR ''_'')"

text \<open>
  \<^verbatim>\<open>identifier_content.casefold() == 'repeat'\<close> and its siblings compare with words of
  ASCII letters. On identifier characters below 256, case folding yields ASCII letters
  only from ASCII letters and from \<^verbatim>\<open>0xDF\<close> (which gives \<^verbatim>\<open>ss\<close>, in none of the
  keywords), so the comparison is the one after lowering \<^verbatim>\<open>A\<close> to \<^verbatim>\<open>Z\<close>.
\<close>

definition lower_char :: "char \<Rightarrow> char" where
  "lower_char c =
     (case map_of (zip ''ABCDEFGHIJKLMNOPQRSTUVWXYZ'' ''abcdefghijklmnopqrstuvwxyz'') c of
        Some l \<Rightarrow> l
      | None \<Rightarrow> c)"

definition casefold_is :: "string \<Rightarrow> string \<Rightarrow> bool" where
  "casefold_is s keyword = (map lower_char s = keyword)"

datatype TokenKind =
    REPEAT | ROTATE | FORWARD | BACKWARD | PENUP | PENDOWN | LBRACE | RBRACE
  | NUMBER | SYMBOL | IDENTIFIER | TO | END | EOF

fun kind_name :: "TokenKind \<Rightarrow> string" where
  "kind_name REPEAT = ''REPEAT''"
| "kind_name ROTATE = ''ROTATE''"
| "kind_name FORWARD = ''FORWARD''"
| "kind_name BACKWARD = ''BACKWARD''"
| "kind_name PENUP = ''PENUP''"
| "kind_name PENDOWN = ''PENDOWN''"
| "kind_name LBRACE = ''LBRACE''"
| "kind_name RBRACE = ''RBRACE''"
| "kind_name NUMBER = ''NUMBER''"
| "kind_name SYMBOL = ''SYMBOL''"
| "kind_name IDENTIFIER = ''IDENTIFIER''"
| "kind_name TO = ''TO''"
| "kind_name END = ''END''"
| "kind_name EOF = ''EOF''"

text \<open>
  \<^verbatim>\<open>class Token\<close>. The position is a value: \<^verbatim>\<open>_create_token\<close> stores a fresh copy of
  the lexer's position object, which nothing else refers to. The content is a string, the
  empty one standing for \<^verbatim>\<open>None\<close> (the lexer gives no token an empty content).
\<close>

record Token =
  kind :: TokenKind
  position :: FilePosition
  content :: string

definition token_str :: "Token \<Rightarrow> string" where
  "token_str t = kind_name (kind t) @ (if content t \<noteq> [] then ''('' @ content t @ '')'' else [])"

text \<open>
  \<^verbatim>\<open>class Lexer\<close>. The buffer holds what \<^verbatim>\<open>pop\<close> returned, a token or \<^verbatim>\<open>None\<close>.
\<close>

record lexer =
  lexer_text :: string
  lexer_position :: FilePosition
  lexer_index :: nat
  lexer_buffer :: "Token option list"

definition Lexer :: "string \<Rightarrow> lexer" where
  "Lexer txt = \<lparr>lexer_text = txt, lexer_position = \<lparr>line_num = 1, char = 0\<rparr>,
                lexer_index = 0, lexer_buffer = []\<rparr>"

definition peek_c :: "lexer \<Rightarrow> char option" where
  "peek_c lx = (if lexer_index lx < length (lexer_text lx)
                then Some (lexer_text lx ! lexer_index lx) else None)"

definition create_token :: "lexer \<Rightarrow> TokenKind \<Rightarrow> string \<Rightarrow> Token" where
  "create_token lx k c = \<lparr>kind = k, position = lexer_position lx, content = c\<rparr>"

definition at_new_line :: "FilePosition \<Rightarrow> FilePosition" where
  "at_new_line p = p\<lparr>line_num := line_num p + 1, char := 0\<rparr>"

text \<open>One round of the loop of \<^verbatim>\<open>_advance\<close>.\<close>

definition position_step :: "FilePosition \<Rightarrow> char \<Rightarrow> FilePosition" where
  "position_step p c =
     (let p1 = p\<lparr>char := char p + 1\<rparr> in if c = CHR 0x0A then at_new_line p1 else p1)"

definition advance :: "lexer \<Rightarrow> nat \<Rightarrow> pyexn + lexer" where
  "advance lx offset =
     (let end_i = lexer_index lx + offset;
          pos = foldl position_step (lexer_position lx)
                  (take offset (drop (lexer_index lx) (lexer_text lx)));
          lx' = lx\<lparr>lexer_position := pos, lexer_index := end_i\<rparr>
      in if end_i > length (lexer_text lx)
         then Inl (LogoParserError ''Lexer cannot advance'' (Some pos))
         else Inr lx')"

text \<open>\<^verbatim>\<open>_pop_c\<close> is only called with its default size 1, so its result is one character.\<close>

definition pop_c :: "lexer \<Rightarrow> pyexn + (char option \<times> lexer)" where
  "pop_c lx =
     (let end_i = lexer_index lx + 1 in
      if end_i > length (lexer_text lx) then Inr (None, lx)
      else (case advance lx 1 of
              Inl e \<Rightarrow> Inl e
            | Inr lx' \<Rightarrow> Inr (Some (lexer_text lx ! lexer_index lx), lx')))"

text \<open>The loop of \<^verbatim>\<open>get_while\<close>, with \<open>res\<close> the string built so far.\<close>

function get_while_loop :: "(char \<Rightarrow> bool) \<Rightarrow> string \<Rightarrow> lexer \<Rightarrow> pyexn + (string \<times> lexer)" where
  "get_while_loop cond res lx =
     (case peek_c lx of
        None \<Rightarrow> Inr (res, lx)
      | Some c \<Rightarrow>
          if \<not> cond c then Inr (res, lx)
          else (case advance lx 1 of
                  Inl e \<Rightarrow> Inl e
                | Inr lx' \<Rightarrow> get_while_loop cond (res @ [c]) lx'))"
  by pat_completeness auto
termination
  by (relation "measure (\<lambda>(cond, res, lx). length (lexer_text lx) - lexer_index lx)")
     (auto simp: peek_c_def advance_def Let_def split: if_splits)

declare get_while_loop.simps [simp del]

definition get_while :: "(char \<Rightarrow> bool) \<Rightarrow> lexer \<Rightarrow> pyexn + (string \<times> lexer)" where
  "get_while cond lx = get_while_loop cond [] lx"

text \<open>
  The inner loop of \<^verbatim>\<open>eat_spaces\<close>: \<^verbatim>\<open>while True: c = self._pop_c(); if c == '\n': break\<close>.
  The first argument bounds the number of rounds; \<open>None\<close> says that the loop has not
  ended within it.
\<close>

fun comment_loop :: "nat \<Rightarrow> lexer \<Rightarrow> (pyexn + lexer) option" where
  "comment_loop 0 lx = None"
| "comment_loop (Suc n) lx =
     (case pop_c lx of
        Inl e \<Rightarrow> Some (Inl e)
      | Inr (c, lx') \<Rightarrow> if c = Some (CHR 0x0A) then Some (Inr lx') else comment_loop n lx')"

fun eat_spaces :: "nat \<Rightarrow> lexer \<Rightarrow> (pyexn + lexer) option" where
  "eat_spaces 0 lx = None"
| "eat_spaces (Suc n) lx =
     (case get_while isspace lx of
        Inl e \<Rightarrow> Some (Inl e)
      | Inr (spaces, lx1) \<Rightarrow>
          (case peek_c lx1 of
             None \<Rightarrow> Some (Inr lx1)
           | Some next_char \<Rightarrow>
               if next_char = CHR ''#'' then
                 (case advance lx1 1 of
                    Inl e \<Rightarrow> Some (Inl e)
                  | Inr lx2 \<Rightarrow>
                      (case comment_loop n lx2 of
                         None \<Rightarrow> None
                       | Some (Inl e) \<Rightarrow> Some (Inl e)
                       | Some (Inr lx3) \<Rightarrow> eat_spaces n lx3))
               else if spaces = [] then Some (Inr lx1)
               else eat_spaces n lx1))"

text \<open>The chain of keyword tests of \<^verbatim>\<open>pop\<close>, in its order.\<close>

definition keyword_kind :: "string \<Rightarrow> TokenKind option" where
  "keyword_kind identifier_content =
     (if casefold_is identifier_content ''repeat'' then Some REPEAT
      else if casefold_is identifier_content ''rotate'' then Some ROTATE
      else if casefold_is identifier_content ''backward'' then Some BACKWARD
      else if casefold_is identifier_content ''forward'' then Some FORWARD
      else if casefold_is identifier_content ''penup'' then Some PENUP
      else if casefold_is identifier_content ''pendown'' then Some PENDOWN
      else if casefold_is identifier_content ''to'' then Some TO
      else if casefold_is identifier_content ''end'' then Some END
      else None)"

text \<open>
  The number branch of \<^verbatim>\<open>pop\<close>, entered with the first digit \<open>c\<close> consumed:
  the result \<open>None\<close> is the \<^verbatim>\<open>return None\<close> taken when no digit follows the dot.
\<close>

definition pop_number :: "bool \<Rightarrow> char \<Rightarrow> lexer \<Rightarrow> pyexn + (Token option \<times> lexer)" where
  "pop_number is_negative c lx =
     (case get_while isnumeric lx of
        Inl e \<Rightarrow> Inl e
      | Inr (digits, lx1) \<Rightarrow>
          (let number_literal = c # digits in
           if peek_c lx1 = Some (CHR ''.'') then
             (case advance lx1 1 of
                Inl e \<Rightarrow> Inl e
              | Inr lx2 \<Rightarrow>
                  (case get_while isnumeric lx2 of
                     Inl e \<Rightarrow> Inl e
                   | Inr (rational_part, lx3) \<Rightarrow>
                       if rational_part = [] then Inr (None, lx3)
                       else
                         (let number_literal = number_literal @ ''.'' @ rational_part;
                              number_literal =
                                (if is_negative then CHR ''-'' # number_literal else number_literal)
                          in Inr (Some (create_token lx3 NUMBER number_literal), lx3))))
           else
             (let number_literal =
                    (if is_negative then CHR ''-'' # number_literal else number_literal)
              in Inr (Some (create_token lx1 NUMBER number_literal), lx1))))"

text \<open>
  \<^verbatim>\<open>pop\<close> from \<^verbatim>\<open>c = self._pop_c()\<close> on. A result \<open>None\<close> in place of a token is the
  \<^verbatim>\<open>None\<close> that \<^verbatim>\<open>pop\<close> returns; \<^verbatim>\<open>c.isnumeric()\<close> on \<^verbatim>\<open>None\<close> raises
  \<^verbatim>\<open>AttributeError\<close>.
\<close>

definition pop_token :: "lexer \<Rightarrow> pyexn + (Token option \<times> lexer)" where
  "pop_token lx0 =
     (case pop_c lx0 of
        Inl e \<Rightarrow> Inl e
      | Inr (None, lx) \<Rightarrow> Inr (Some (create_token lx EOF []), lx)
      | Inr (Some c, lx) \<Rightarrow>
          if c = CHR ''['' then Inr (Some (create_token lx LBRACE []), lx)
          else if c = CHR '']'' then Inr (Some (create_token lx RBRACE []), lx)
          else if isalpha c then
            (case get_while is_identifier_char lx of
               Inl e \<Rightarrow> Inl e
             | Inr (rest, lx1) \<Rightarrow>
                 (let identifier_content = c # rest in
                  case keyword_kind identifier_content of
                    Some k \<Rightarrow> Inr (Some (create_token lx1 k []), lx1)
                  | None \<Rightarrow> Inr (Some (create_token lx1 IDENTIFIER identifier_content), lx1)))
          else if c = CHR '':'' then
            (case get_while is_identifier_char lx of
               Inl e \<Rightarrow> Inl e
             | Inr (rest, lx1) \<Rightarrow> Inr (Some (create_token lx1 SYMBOL (c # rest)), lx1))
          else
            (let is_negative = (c = CHR ''-'') in
             case (if is_negative then pop_c lx else Inr (Some c, lx)) of
               Inl e \<Rightarrow> Inl e
             | Inr (None, lx1) \<Rightarrow> Inl AttributeError
             | Inr (Some c1, lx1) \<Rightarrow>
                 if isnumeric c1 then pop_number is_negative c1 lx1
                 else if is_negative then Inl AssertionError
                 else Inr (None, lx1)))"

fun pop :: "nat \<Rightarrow> lexer \<Rightarrow> (pyexn + (Token option \<times> lexer)) option" where
  "pop n lx =
     (case lexer_buffer lx of
        t # rest \<Rightarrow> Some (Inr (t, lx\<lparr>lexer_buffer := rest\<rparr>))
      | [] \<Rightarrow>
          (case eat_spaces n lx of
             None \<Rightarrow> None
           | Some (Inl e) \<Rightarrow> Some (Inl e)
           | Some (Inr lx1) \<Rightarrow> Some (pop_token lx1)))"

definition peek :: "nat \<Rightarrow> lexer \<Rightarrow> (pyexn + (Token option \<times> lexer)) option" where
  "peek n lx =
     (case lexer_buffer lx of
        t # rest \<Rightarrow> Some (Inr (t, lx))
      | [] \<Rightarrow>
          (case pop n lx of
             None \<Rightarrow> None
           | Some (Inl e) \<Rightarrow> Some (Inl e)
           | Some (Inr (next_token, lx1)) \<Rightarrow>
               Some (Inr (next_token, lx1\<lparr>lexer_buffer := lexer_buffer lx1 @ [next_token]\<rparr>))))"

definition expecting_message :: "TokenKind \<Rightarrow> Token \<Rightarrow> string" where
  "expecting_message expected_kind next_token =
     ''Error trying to parse ppm file: expecting '' @ [CHR 0x27] @ kind_name expected_kind
       @ [CHR 0x27] @ '' get a '' @ [CHR 0x27] @ token_str next_token @ [CHR 0x27]"

definition match :: "nat \<Rightarrow> TokenKind \<Rightarrow> lexer \<Rightarrow> (pyexn + (Token option \<times> lexer)) option" where
  "match n expected_kind lx =
     (case pop n lx of
        None \<Rightarrow> None
      | Some (Inl e) \<Rightarrow> Some (Inl e)
      | Some (Inr (None, lx1)) \<Rightarrow> Some (Inr (None, lx1))
      | Some (Inr (Some next_token, lx1)) \<Rightarrow>
          if kind next_token \<noteq> expected_kind
          then Some (Inl (LogoParserError (expecting_message expected_kind next_token)
                            (Some (lexer_position lx1))))
          else Some (Inr (Some next_token, lx1)))"

definition maybe_match :: "nat \<Rightarrow> TokenKind \<Rightarrow> lexer \<Rightarrow> (pyexn + (Token option \<times> lexer)) option" where
  "maybe_match n expected_kind lx =
     (case pop n lx of
        None \<Rightarrow> None
      | Some (Inl e) \<Rightarrow> Some (Inl e)
      | Some (Inr (None, lx1)) \<Rightarrow> Some (Inr (None, lx1))
      | Some (Inr (Some next_token, lx1)) \<Rightarrow>
          if kind next_token \<noteq> expected_kind
          then Some (Inr (None, lx1\<lparr>lexer_buffer := lexer_buffer lx1 @ [Some next_token]\<rparr>))
          else Some (Inr (Some next_token, lx1)))"

text \<open>
  The position reached after reading a string from the start of the text, and the lexers
  whose position is the one of their index.
\<close>

definition position_after :: "string \<Rightarrow> FilePosition" where
  "position_after s = foldl position_step \<lparr>line_num = 1, char = 0\<rparr> s"

definition lexer_ok :: "lexer \<Rightarrow> bool" where
  "lexer_ok lx = (lexer_index lx \<le> length (lexer_text lx)
     \<and> lexer_position lx = position_after (take (lexer_index lx) (lexer_text lx)))"

text \<open>
  \<open>reads lx s lx'\<close>: the lexer \<open>lx'\<close> is \<open>lx\<close> after consuming the characters \<open>s\<close>,
  which are the next ones of the text.
\<close>

definition reads :: "lexer \<Rightarrow> string \<Rightarrow> lexer \<Rightarrow> bool" where
  "reads lx s lx' =
     (lx' = lx\<lparr>lexer_position := foldl position_step (lexer_position lx) s,
                lexer_index := lexer_index lx + length s\<rparr>
      \<and> take (length s) (drop (lexer_index lx) (lexer_text lx)) = s
      \<and> lexer_index lx + length s \<le> length (lexer_text lx))"

subsection \<open>Parser\<close>

text \<open>
  A step of the parser either uses up its budget (\<open>None\<close>), raises, or returns a value
  and the lexer as it is afterwards; \<open>bindc\<close> runs a second step after a first one that
  returned.
\<close>

type_synonym 'a parse = "(pyexn + ('a \<times> lexer)) option"

definition bindc :: "(pyexn + 'a) option \<Rightarrow> ('a \<Rightarrow> (pyexn + 'b) option) \<Rightarrow> (pyexn + 'b) option" where
  "bindc m f = (case m of None \<Rightarrow> None | Some (Inl e) \<Rightarrow> Some (Inl e) | Some (Inr a) \<Rightarrow> f a)"

text \<open>
  \<^verbatim>\<open>float(number_token.content)\<close> is the built-in conversion, a parameter \<open>float_of\<close>
  of the parser here: it gives the float of a literal, or \<open>None\<close> where
  \<^verbatim>\<open>float\<close> raises \<^verbatim>\<open>ValueError\<close>.
\<close>

definition parse_expression :: "nat \<Rightarrow> (string \<Rightarrow> pyfloat option) \<Rightarrow> lexer \<Rightarrow> expr parse" where
  "parse_expression n float_of lx =
     bindc (maybe_match n NUMBER lx) (\<lambda>(number_token, lx).
       case number_token of
         Some t \<Rightarrow>
           (case float_of (content t) of
              None \<Rightarrow> Some (Inl ValueError)
            | Some x \<Rightarrow> Some (Inr (ENum x, lx)))
       | None \<Rightarrow>
           bindc (maybe_match n SYMBOL lx) (\<lambda>(symbol_token, lx).
             case symbol_token of
               Some t \<Rightarrow> Some (Inr (ESym (content t), lx))
             | None \<Rightarrow> Some (Inr (ENone, lx))))"

definition parse_number :: "nat \<Rightarrow> (string \<Rightarrow> pyfloat option) \<Rightarrow> lexer \<Rightarrow> pyfloat parse" where
  "parse_number n float_of lx =
     bindc (match n NUMBER lx) (\<lambda>(number_token, lx).
       case number_token of
         None \<Rightarrow> Some (Inl AttributeError)
       | Some t \<Rightarrow>
           (case float_of (content t) of
              None \<Rightarrow> Some (Inl ValueError)
            | Some x \<Rightarrow> Some (Inr (x, lx))))"

text \<open>The truth value of what \<^verbatim>\<open>parse_expression\<close> returned, as \<^verbatim>\<open>while expr := ...\<close> tests it.\<close>

fun expr_truthy :: "expr \<Rightarrow> bool" where
  "expr_truthy (ENum x) = (x \<noteq> Finite 0)"
| "expr_truthy (ESym name) = True"
| "expr_truthy ENone = False"

text \<open>\<^verbatim>\<open>while symbol := self.lexer.maybe_match(TokenKind.SYMBOL): arguments.append(symbol.content)\<close>\<close>

fun parse_formals :: "nat \<Rightarrow> string list \<Rightarrow> lexer \<Rightarrow> (string list) parse" where
  "parse_formals 0 arguments lx = None"
| "parse_formals (Suc n) arguments lx =
     bindc (maybe_match n SYMBOL lx) (\<lambda>(symbol, lx).
       case symbol of
         Some t \<Rightarrow> parse_formals n (arguments @ [content t]) lx
       | None \<Rightarrow> Some (Inr (arguments, lx)))"

text \<open>\<^verbatim>\<open>while expr := self.parse_expression(): arguments.append(expr)\<close>\<close>

fun parse_arguments :: "nat \<Rightarrow> (string \<Rightarrow> pyfloat option) \<Rightarrow> expr list \<Rightarrow> lexer \<Rightarrow> (expr list) parse" where
  "parse_arguments 0 float_of arguments lx = None"
| "parse_arguments (Suc n) float_of arguments lx =
     bindc (parse_expression n float_of lx) (\<lambda>(expr, lx).
       if expr_truthy expr then parse_arguments n float_of (arguments @ [expr]) lx
       else Some (Inr (arguments, lx)))"

text \<open>
  \<^verbatim>\<open>parse_instruction\<close> and \<^verbatim>\<open>parse_block\<close>, with the loop
  \<^verbatim>\<open>while not self.lexer.maybe_match(K): xs.append(self.parse_instruction())\<close> that both
  use (\<open>K\<close> is \<^verbatim>\<open>END\<close> in a definition, \<^verbatim>\<open>RBRACE\<close> in a block). The first
  argument bounds the nesting of calls and the rounds of the loops.
\<close>

fun parse_instruction :: "nat \<Rightarrow> (string \<Rightarrow> pyfloat option) \<Rightarrow> lexer \<Rightarrow> node parse"
and parse_until ::
  "nat \<Rightarrow> (string \<Rightarrow> pyfloat option) \<Rightarrow> TokenKind \<Rightarrow> node list \<Rightarrow> lexer \<Rightarrow> (node list) parse"
and parse_block :: "nat \<Rightarrow> (string \<Rightarrow> pyfloat option) \<Rightarrow> lexer \<Rightarrow> node parse" where
  "parse_instruction 0 float_of lx = None"
| "parse_instruction (Suc n) float_of lx =
     bindc (maybe_match n TO lx) (\<lambda>(tok, lx).
     if tok \<noteq> None then
       bindc (match n IDENTIFIER lx) (\<lambda>(name_identifier, lx).
       bindc (parse_formals n [] lx) (\<lambda>(arguments, lx).
       bindc (parse_until n float_of END [] lx) (\<lambda>(procedure_body, lx).
         case name_identifier of
           None \<Rightarrow> Some (Inl AttributeError)
         | Some t \<Rightarrow> Some (Inr (Procedure (content t) arguments procedure_body, lx)))))
     else
     bindc (maybe_match n ROTATE lx) (\<lambda>(tok, lx).
     if tok \<noteq> None then
       bindc (parse_expression n float_of lx) (\<lambda>(e, lx). Some (Inr (Rotate e, lx)))
     else
     bindc (maybe_match n FORWARD lx) (\<lambda>(tok, lx).
     if tok \<noteq> None then
       bindc (parse_expression n float_of lx) (\<lambda>(e, lx). Some (Inr (Forward e, lx)))
     else
     bindc (maybe_match n BACKWARD lx) (\<lambda>(tok, lx).
     if tok \<noteq> None then
       bindc (parse_expression n float_of lx) (\<lambda>(e, lx). Some (Inr (Backward e, lx)))
     else
     bindc (maybe_match n PENDOWN lx) (\<lambda>(tok, lx).
     if tok \<noteq> None then Some (Inr (PenDown, lx))
     else
     bindc (maybe_match n PENUP lx) (\<lambda>(tok, lx).
     if tok \<noteq> None then Some (Inr (PenUp, lx))
     else
     bindc (maybe_match n REPEAT lx) (\<lambda>(tok, lx).
     if tok \<noteq> None then
       bindc (parse_expression n float_of lx) (\<lambda>(times_expr, lx).
       bindc (parse_block n float_of lx) (\<lambda>(block, lx).
         Some (Inr (Repeat times_expr block, lx))))
     else
     bindc (maybe_match n IDENTIFIER lx) (\<lambda>(name_token, lx).
     case name_token of
       Some t \<Rightarrow>
         bindc (parse_arguments n float_of [] lx) (\<lambda>(arguments, lx).
           Some (Inr (ProcedureCall (content t) arguments, lx)))
     | None \<Rightarrow> Some (Inr (NoInstruction, lx))))))))))"
| "parse_until 0 float_of k instructions lx = None"
| "parse_until (Suc n) float_of k instructions lx =
     bindc (maybe_match n k lx) (\<lambda>(tok, lx).
     if tok \<noteq> None then Some (Inr (instructions, lx))
     else
       bindc (parse_instruction n float_of lx) (\<lambda>(instruction, lx).
         parse_until n float_of k (instructions @ [instruction]) lx))"
| "parse_block 0 float_of lx = None"
| "parse_block (Suc n) float_of lx =
     bindc (maybe_match n LBRACE lx) (\<lambda>(tok, lx).
     if tok \<noteq> None then
       bindc (parse_until n float_of RBRACE [] lx) (\<lambda>(instructions, lx).
         Some (Inr (Block instructions, lx)))
     else parse_instruction n float_of lx)"

text \<open>
  \<^verbatim>\<open>LogoParser(f).parse()\<close> on the text read from \<^verbatim>\<open>f\<close>: the loop of \<^verbatim>\<open>parse\<close>,
  started on a new lexer.
\<close>

fun parse_loop :: "nat \<Rightarrow> (string \<Rightarrow> pyfloat option) \<Rightarrow> node list \<Rightarrow> lexer \<Rightarrow> node parse" where
  "parse_loop 0 float_of file_body lx = None"
| "parse_loop (Suc n) float_of file_body lx =
     bindc (maybe_match n EOF lx) (\<lambda>(tok, lx).
     if tok \<noteq> None then Some (Inr (Block file_body, lx))
     else
       bindc (parse_instruction n float_of lx) (\<lambda>(instruction, lx).
         parse_loop n float_of (file_body @ [instruction]) lx))"

definition parse :: "nat \<Rightarrow> (string \<Rightarrow> pyfloat option) \<Rightarrow> string \<Rightarrow> (pyexn + node) option" where
  "parse n float_of txt =
     (case parse_loop n float_of [] (Lexer txt) of
        None \<Rightarrow> None
      | Some (Inl e) \<Rightarrow> Some (Inl e)
      | Some (Inr (ast, lx)) \<Rightarrow> Some (Inr ast))"
section \<open>Properties of the evaluator\<close>

subsection \<open>Environments and the frame of \<^verbatim>\<open>run\<close>\<close>

lemma parent_set_name [simp]: "parent (set_name env n v) = parent env"
  by (simp add: set_name_def)

lemma names_set_name [simp]: "names (set_name env n v) = AList.update n v (names env)"
  by (simp add: set_name_def)

lemma parent_bind_arguments [simp]: "parent (bind_arguments zs env child) = parent child"
  by (induction zs env child rule: bind_arguments.induct) auto

lemma map_of_bind_arguments:
  "map_of (names (bind_arguments zs env child)) =
     map_of (names child) ++ map_of (rev (map (\<lambda>(p, a). (p, evaluate_expression a env)) zs))"
proof (induction zs env child rule: bind_arguments.induct)
  case (1 env child_env)
  then show ?case by simp
next
  case (2 name argument rest env child_env)
  have "(map_of (names child_env))(name \<mapsto> evaluate_expression argument env)
        = map_of (names child_env) ++ [name \<mapsto> evaluate_expression argument env]"
    by simp
  then show ?case using 2 by (simp add: update_conv' map_add_assoc del: map_add_upd)
qed

lemma resolve_unbound:
  "\<forall>ns \<in> set (scopes env). map_of ns name = None \<Longrightarrow> resolve env name = VNone"
  by (induction env name rule: resolve.induct) (auto split: option.splits)

lemma resolve_local_miss:
  "map_of (names child) x = None \<Longrightarrow> parent child = Some env \<Longrightarrow> resolve child x = resolve env x"
  by (cases child) simp

lemma for_each_parent:
  assumes "\<And>i e s x e' s'. f i e s = Some (x, e', s') \<Longrightarrow> parent e' = parent e"
  shows "for_each f body env d = Some (x, env', d') \<Longrightarrow> parent env' = parent env"
proof (induction body arbitrary: env d)
  case Nil then show ?case by simp
next
  case (Cons i body)
  then show ?case using assms
    by (fastforce split: option.splits prod.splits)
qed

lemma for_range_parent:
  assumes "\<And>e s x e' s'. f e s = Some (x, e', s') \<Longrightarrow> parent e' = parent e"
  shows "for_range n f env d = Some (x, env', d') \<Longrightarrow> parent env' = parent env"
proof (induction n arbitrary: env d)
  case 0 then show ?case by simp
next
  case (Suc n)
  then show ?case using assms
    by (fastforce split: option.splits prod.splits)
qed

lemma run_keeps_parent:
  "run k T node env d = Some (x, env', d') \<Longrightarrow> parent env' = parent env"
proof (induction k arbitrary: node env d x env' d')
  case 0 then show ?case by simp
next
  case (Suc k)
  show ?case
  proof (cases node)
    case (Block body)
    with Suc.prems have "for_each (\<lambda>i e s. run k T i e s) body env d = Some (x, env', d')" by simp
    then show ?thesis using for_each_parent[of "\<lambda>i e s. run k T i e s"] Suc.IH by blast
  next
    case (Repeat t b)
    show ?thesis
    proof (cases "py_int (evaluate_expression t env)")
      case (Inl e) with Suc.prems Repeat show ?thesis by simp
    next
      case (Inr n)
      with Suc.prems Repeat have "for_range (nat n) (\<lambda>e s. run k T b e s) env d = Some (x, env', d')" by simp
      then show ?thesis using for_range_parent[of "\<lambda>e s. run k T b e s"] Suc.IH by blast
    qed
  next
    case (ProcedureCall f args)
    with Suc.prems show ?thesis using Suc.IH
      by (auto simp: Let_def caller_environment_def create_child_def split: if_splits pyval.splits option.splits)
  qed (use Suc.prems in \<open>auto simp: turtle_call_def split: sum.splits\<close>)
qed



lemma run_call_returns_caller:
  assumes "run k T (Block body) child d = Some (x, child', d')" "parent child = Some env"
  shows "caller_environment child' env0 = env"
  using run_keeps_parent[OF assms(1)] assms(2) by (simp add: caller_environment_def)


subsection \<open>Procedure calls\<close>

text \<open>
  Claim C1. A call whose name resolves to a procedure of matching arity runs the body in
  the environment \<open>child\<close> built as follows: a fresh environment whose parent is the
  caller's environment \<open>env\<close>, in which each formal parameter is bound, in order, to
  the value of the argument at the same position, evaluated in \<open>env\<close>. A name that is
  not a formal parameter resolves in the child to whatever it resolves to in the caller's
  environment at the time of the call; the environment of the definition plays no part.
  The caller's environment is the same after the call.
\<close>

theorem call_binds_in_child_of_caller:
  assumes "resolve env f = VProc name formals body" and "length formals = length args"
    and child_def: "child = bind_arguments (zip formals args) env (create_child env)"
  shows "parent child = Some env
       \<and> map_of (names child) = map_of (rev (zip formals (map (\<lambda>a. evaluate_expression a env) args)))
       \<and> (distinct formals \<longrightarrow>
            (\<forall>i < length formals. map_of (names child) (formals ! i) = Some (evaluate_expression (args ! i) env)))
       \<and> (\<forall>x. x \<notin> set formals \<longrightarrow> resolve child x = resolve env x)
       \<and> run (Suc k) T (ProcedureCall f args) env d
           = (case run k T (Block body) child d of
                None \<Rightarrow> None
              | Some (x, child', d') \<Rightarrow> Some (x, env, d'))"
proof -
  let ?vals = "map (\<lambda>a. evaluate_expression a env) args"
  have zs: "map (\<lambda>(p, a). (p, evaluate_expression a env)) (zip formals args) = zip formals ?vals"
    by (simp add: zip_map2)
  have p: "parent child = Some env" by (simp add: child_def create_child_def)
  have m: "map_of (names child) = map_of (rev (zip formals ?vals))"
    by (simp add: child_def map_of_bind_arguments zs create_child_def)
  have len: "length formals = length ?vals" using assms(2) by simp
  have pos: "map_of (names child) (formals ! i) = Some (evaluate_expression (args ! i) env)"
    if "distinct formals" "i < length formals" for i
  proof -
    have "distinct (map fst (zip formals ?vals))" using that(1) len by (simp add: map_fst_zip)
    then have "map_of (rev (zip formals ?vals)) = map_of (zip formals ?vals)"
      by (subst map_of_inject_set) (simp_all add: rev_map[symmetric])
    moreover have "map_of (zip formals ?vals) (formals ! i) = Some (?vals ! i)"
      using that len by (simp add: map_of_zip_nth)
    ultimately show ?thesis using m that(2) assms(2) by simp
  qed
  have free: "resolve child x = resolve env x" if "x \<notin> set formals" for x
  proof -
    have "map_of (names child) x = None"
      unfolding m using that by (auto simp: map_of_eq_None_iff dest: set_zip_leftD)
    then show ?thesis using p by (rule resolve_local_miss)
  qed
  have r: "run (Suc k) T (ProcedureCall f args) env d
           = (case run k T (Block body) child d of
                None \<Rightarrow> None
              | Some (x, child', d') \<Rightarrow> Some (x, env, d'))"
    using assms(1,2) p
    by (auto simp: Let_def child_def[symmetric] split: option.splits dest!: run_call_returns_caller)
  show ?thesis using p m pos free r by blast
qed

theorem call_binds_in_child_of_caller_witness:
  "resolve (Environment [(''f'', VProc ''f'' ['':s''] [Forward (ESym '':s''), Rotate (ESym '':t'')]),
                         ('':t'', VNum (Finite 90))] None) ''f''
     = VProc ''f'' ['':s''] [Forward (ESym '':s''), Rotate (ESym '':t'')]
   \<and> run (Suc 2) record_turtle (ProcedureCall ''f'' [ENum (Finite 50)])
        (Environment [(''f'', VProc ''f'' ['':s''] [Forward (ESym '':s''), Rotate (ESym '':t'')]),
                      ('':t'', VNum (Finite 90))] None) []
     = Some (None,
         Environment [(''f'', VProc ''f'' ['':s''] [Forward (ESym '':s''), Rotate (ESym '':t'')]),
                      ('':t'', VNum (Finite 90))] None,
         [TForward (VNum (Finite 50)), TLeft (VNum (Finite 90))])"
proof -
  let ?body = "[Forward (ESym '':s''), Rotate (ESym '':t'')]"
  let ?env = "Environment [(''f'', VProc ''f'' ['':s''] ?body), ('':t'', VNum (Finite 90))] None"
  have h1: "resolve ?env ''f'' = VProc ''f'' ['':s''] ?body" by simp
  have h2: "length ['':s''] = length [ENum (Finite 50)]" by simp
  from call_binds_in_child_of_caller[OF h1 h2 refl, of 2 record_turtle "[]"] h1
  show ?thesis
    by (simp add: eval_nat_numeral record_turtle_def turtle_call_def create_child_def set_name_def)
qed

text \<open>
  Claim C3. A call whose name resolves to nothing stops with the error
  \<^verbatim>\<open>ERROR: cannot find the procedure <name>\<close>; a call to a procedure with another number
  of arguments than it declares stops with the error that names the procedure, the number
  needed and the number passed. In both cases the environment and the turtle are as before
  the call. The evaluator raises both as \<^verbatim>\<open>LogoParserError\<close> without a position.
\<close>

theorem call_errors:
  "(resolve env f = VNone \<longrightarrow>
      run (Suc k) T (ProcedureCall f args) env d
        = Some (Some (LogoParserError (cannot_find_message f) None), env, d))
 \<and> (resolve env f = VProc name formals body \<and> length formals \<noteq> length args \<longrightarrow>
      run (Suc k) T (ProcedureCall f args) env d
        = Some (Some (LogoParserError
             (wrong_number_message name (length formals) (length args)) None), env, d))"
  by simp

theorem call_errors_witness:
  "run (Suc 0) record_turtle (ProcedureCall ''g'' [ENum (Finite 1)]) (Environment [] None) []
     = Some (Some (LogoParserError ''ERROR: cannot find the procedure g'' None), Environment [] None, [])
   \<and> run (Suc 0) record_turtle (ProcedureCall ''f'' [ENum (Finite 1), ENum (Finite 2)])
        (Environment [(''f'', VProc ''f'' ['':s''] [Forward (ESym '':s'')])] None) []
     = Some (Some (LogoParserError
          ''ERROR: wrong number of argument for the function 'f' (needed 1, passed 2)'' None),
          Environment [(''f'', VProc ''f'' ['':s''] [Forward (ESym '':s'')])] None, [])"
proof -
  let ?env = "Environment [(''f'', VProc ''f'' ['':s''] [Forward (ESym '':s'')])] None"
  have a: "resolve (Environment [] None) ''g'' = VNone" by simp
  have b: "resolve ?env ''f'' = VProc ''f'' ['':s''] [Forward (ESym '':s'')]
           \<and> length ['':s''] \<noteq> length [ENum (Finite 1), ENum (Finite 2)]" by simp
  have m: "wrong_number_message ''f'' (length ['':s'']) (length [ENum (Finite 1), ENum (Finite 2)])
           = ''ERROR: wrong number of argument for the function 'f' (needed 1, passed 2)''"
    by (simp add: wrong_number_message_def digit_char_def str_of_nat.simps)
  from call_errors[of "Environment [] None" "''g''" 0 record_turtle "[ENum (Finite 1)]" "[]"] a
  have 1: "run (Suc 0) record_turtle (ProcedureCall ''g'' [ENum (Finite 1)]) (Environment [] None) []
     = Some (Some (LogoParserError ''ERROR: cannot find the procedure g'' None), Environment [] None, [])"
    by (simp add: cannot_find_message_def)
  from call_errors[of ?env "''f''" 0 record_turtle "[ENum (Finite 1), ENum (Finite 2)]" "[]"
      "''f''" "['':s'']" "[Forward (ESym '':s'')]"] b m
  have 2: "run (Suc 0) record_turtle (ProcedureCall ''f'' [ENum (Finite 1), ENum (Finite 2)]) ?env []
     = Some (Some (LogoParserError
          ''ERROR: wrong number of argument for the function 'f' (needed 1, passed 2)'' None), ?env, [])"
    by simp
  from 1 2 show ?thesis by simp
qed

subsection \<open>Repetition\<close>




subsection \<open>Unbound symbols\<close>

text \<open>
  Claim C8. When no scope of the chain binds a name, a reference to it evaluates to
  \<^verbatim>\<open>None\<close>, and \<^verbatim>\<open>Forward\<close>, \<^verbatim>\<open>Backward\<close> and \<^verbatim>\<open>Rotate\<close> hand that
  value to the turtle: the outcome of the node is the outcome of the turtle's command on
  \<^verbatim>\<open>None\<close>, and the evaluator adds no error of its own.
\<close>

theorem unbound_symbol_reaches_turtle:
  assumes "\<forall>ns \<in> set (scopes env). map_of ns name = None"
  shows "evaluate_expression (ESym name) env = VNone
       \<and> run (Suc k) T (Forward (ESym name)) env d = turtle_call T (TForward VNone) env d
       \<and> run (Suc k) T (Backward (ESym name)) env d = turtle_call T (TBackward VNone) env d
       \<and> run (Suc k) T (Rotate (ESym name)) env d = turtle_call T (TLeft VNone) env d"
  using resolve_unbound[OF assms] by simp

theorem unbound_symbol_reaches_turtle_witness:
  "evaluate_expression (ESym '':s'')
       (Environment [('':a'', VNum (Finite 1))] (Some (Environment [] None))) = VNone
   \<and> run (Suc 0) record_turtle (Forward (ESym '':s''))
        (Environment [('':a'', VNum (Finite 1))] (Some (Environment [] None))) []
     = Some (None, Environment [('':a'', VNum (Finite 1))] (Some (Environment [] None)), [TForward VNone])"
proof -
  let ?env = "Environment [('':a'', VNum (Finite 1))] (Some (Environment [] None))"
  have h: "\<forall>ns \<in> set (scopes ?env). map_of ns '':s'' = None" by simp
  from unbound_symbol_reaches_turtle[OF h, of 0 record_turtle "[]"] show ?thesis
    by (simp add: turtle_call_def record_turtle_def)
qed

subsection \<open>Which bindings a node can change\<close>




subsection \<open>Name resolution\<close>

text \<open>
  Claim C2 says that a name bound in the local scope is returned from the local scope,
  whatever its value. \<^verbatim>\<open>resolve\<close> tests the truth value of what it finds: a local
  binding to \<open>0.0\<close> is passed over and the parent's binding is returned, or
  \<^verbatim>\<open>None\<close> when there is no parent. The same happens to a parameter bound to
  \<^verbatim>\<open>None\<close>: in the program \<^verbatim>\<open>to f :s forward :s end  to g :s f :u end  g 5\<close> the
  body of \<^verbatim>\<open>f\<close> moves by the \<^verbatim>\<open>:s\<close> of \<^verbatim>\<open>g\<close>.
\<close>

theorem resolve_skips_falsy_local:
  "resolve (Environment [('':s'', VNum (Finite 0))]
              (Some (Environment [('':s'', VNum (Finite 5))] None))) '':s''
     = VNum (Finite 5)
   \<and> resolve (Environment [('':s'', VNum (Finite 0))] None) '':s'' = VNone
   \<and> run 7 record_turtle
        (Block [Procedure ''f'' ['':s''] [Forward (ESym '':s'')],
                Procedure ''g'' ['':s''] [ProcedureCall ''f'' [ESym '':u'']],
                ProcedureCall ''g'' [ENum (Finite 5)]]) (Environment [] None) []
     = Some (None,
         Environment [(''f'', VProc ''f'' ['':s''] [Forward (ESym '':s'')]),
                      (''g'', VProc ''g'' ['':s''] [ProcedureCall ''f'' [ESym '':u'']])] None,
         [TForward (VNum (Finite 5))])"
  by (simp add: eval_nat_numeral record_turtle_def turtle_call_def create_child_def set_name_def
      caller_environment_def)

section \<open>Properties of the lexer\<close>

subsection \<open>Reading characters\<close>

lemma advance_one:
  "lexer_index lx < length (lexer_text lx) \<Longrightarrow>
   advance lx 1 = Inr (lx\<lparr>lexer_position := position_step (lexer_position lx) (lexer_text lx ! lexer_index lx),
                         lexer_index := Suc (lexer_index lx)\<rparr>)"
  by (simp add: advance_def Let_def take_Suc hd_drop_conv_nth)

lemma advance_Suc0:
  "lexer_index lx < length (lexer_text lx) \<Longrightarrow>
   advance lx (Suc 0) = Inr (lx\<lparr>lexer_position := position_step (lexer_position lx) (lexer_text lx ! lexer_index lx),
                         lexer_index := Suc (lexer_index lx)\<rparr>)"
  using advance_one by simp

lemma pop_c_at_end:
  "length (lexer_text lx) \<le> lexer_index lx \<Longrightarrow> pop_c lx = Inr (None, lx)"
  by (simp add: pop_c_def Let_def)

lemma pop_c_inside:
  "lexer_index lx < length (lexer_text lx) \<Longrightarrow>
   pop_c lx = Inr (Some (lexer_text lx ! lexer_index lx),
       lx\<lparr>lexer_position := position_step (lexer_position lx) (lexer_text lx ! lexer_index lx),
          lexer_index := Suc (lexer_index lx)\<rparr>)"
  by (simp add: pop_c_def Let_def advance_Suc0)

lemma comment_loop_no_newline:
  "CHR 0x0A \<notin> set (drop (lexer_index lx) (lexer_text lx)) \<Longrightarrow> comment_loop n lx = None"
proof (induction n arbitrary: lx)
  case 0
  then show ?case by simp
next
  case (Suc n)
  show ?case
  proof (cases "lexer_index lx < length (lexer_text lx)")
    case True
    let ?lx' = "lx\<lparr>lexer_position := position_step (lexer_position lx) (lexer_text lx ! lexer_index lx),
          lexer_index := Suc (lexer_index lx)\<rparr>"
    have d: "drop (lexer_index lx) (lexer_text lx)
               = lexer_text lx ! lexer_index lx # drop (Suc (lexer_index lx)) (lexer_text lx)"
      using True by (simp add: Cons_nth_drop_Suc)
    with Suc.prems have c: "lexer_text lx ! lexer_index lx \<noteq> CHR 0x0A"
      and r: "CHR 0x0A \<notin> set (drop (lexer_index ?lx') (lexer_text ?lx'))" by auto
    from Suc.IH[OF r] c show ?thesis by (simp add: pop_c_inside[OF True])
  next
    case False
    then have "pop_c lx = Inr (None, lx)" by (simp add: pop_c_at_end)
    then show ?thesis using Suc.IH[OF Suc.prems] by simp
  qed
qed

lemma get_while_loop_span:
  "drop (lexer_index lx) (lexer_text lx) = xs @ rest \<Longrightarrow> \<forall>c \<in> set xs. cond c \<Longrightarrow>
   rest = [] \<or> \<not> cond (hd rest) \<Longrightarrow>
   get_while_loop cond res lx
     = Inr (res @ xs, lx\<lparr>lexer_position := foldl position_step (lexer_position lx) xs,
                             lexer_index := lexer_index lx + length xs\<rparr>)"
proof (induction xs arbitrary: res lx)
  case Nil
  show ?case
  proof (cases "lexer_index lx < length (lexer_text lx)")
    case True
    then have "drop (lexer_index lx) (lexer_text lx) = lexer_text lx ! lexer_index lx # drop (Suc (lexer_index lx)) (lexer_text lx)"
      by (simp add: Cons_nth_drop_Suc)
    with Nil have "\<not> cond (lexer_text lx ! lexer_index lx)" by auto
    then show ?thesis using True by (subst get_while_loop.simps) (simp add: peek_c_def)
  next
    case False
    then show ?thesis by (subst get_while_loop.simps) (simp add: peek_c_def)
  qed
next
  case (Cons x xs)
  from Cons.prems(1) have lt: "lexer_index lx < length (lexer_text lx)"
    by (metis append_Cons drop_eq_Nil2 list.distinct(1) not_le)
  then have d: "drop (lexer_index lx) (lexer_text lx) = lexer_text lx ! lexer_index lx # drop (Suc (lexer_index lx)) (lexer_text lx)"
    by (simp add: Cons_nth_drop_Suc)
  with Cons.prems(1) have x: "lexer_text lx ! lexer_index lx = x"
    and dr: "drop (Suc (lexer_index lx)) (lexer_text lx) = xs @ rest" by auto
  let ?lx' = "lx\<lparr>lexer_position := position_step (lexer_position lx) x,
          lexer_index := Suc (lexer_index lx)\<rparr>"
  have "get_while_loop cond (res @ [x]) ?lx'
     = Inr ((res @ [x]) @ xs, ?lx'\<lparr>lexer_position := foldl position_step (lexer_position ?lx') xs,
                             lexer_index := lexer_index ?lx' + length xs\<rparr>)"
    by (rule Cons.IH) (use dr Cons.prems in auto)
  moreover have "get_while_loop cond res lx = get_while_loop cond (res @ [x]) ?lx'"
    using lt x Cons.prems(2) by (subst get_while_loop.simps) (simp add: peek_c_def advance_Suc0)
  ultimately show ?case by simp
qed

lemma eat_spaces_unterminated_comment:
  "CHR 0x0A \<notin> set cs \<Longrightarrow> eat_spaces n (Lexer (CHR ''#'' # cs)) = None"
proof (cases n)
  case 0
  then show ?thesis by simp
next
  case (Suc m)
  assume nl: "CHR 0x0A \<notin> set cs"
  let ?lx = "Lexer (CHR ''#'' # cs)"
  have g: "get_while isspace ?lx = Inr ([], ?lx)"
    unfolding get_while_def
    by (subst get_while_loop.simps) (simp add: peek_c_def Lexer_def isspace_def)
  have p: "peek_c ?lx = Some (CHR ''#'')" by (simp add: peek_c_def Lexer_def)
  obtain lx2 where a: "advance ?lx 1 = Inr lx2" and i: "lexer_index lx2 = 1" and t: "lexer_text lx2 = CHR ''#'' # cs"
    by (simp add: advance_def Lexer_def Let_def)
  have "comment_loop m lx2 = None"
    by (rule comment_loop_no_newline) (simp add: i t nl)
  then show ?thesis using Suc g p a by simp
qed


lemma reads_refl: "lexer_index lx \<le> length (lexer_text lx) \<Longrightarrow> reads lx [] lx"
  by (simp add: reads_def)

lemma reads_trans:
  assumes "reads lx s lx1" and "reads lx1 s' lx2"
  shows "reads lx (s @ s') lx2"
proof -
  from assms(1) have 1: "lx1 = lx\<lparr>lexer_position := foldl position_step (lexer_position lx) s,
                lexer_index := lexer_index lx + length s\<rparr>"
    and t1: "take (length s) (drop (lexer_index lx) (lexer_text lx)) = s"
    by (simp_all add: reads_def)
  from assms(2) have 2: "lx2 = lx1\<lparr>lexer_position := foldl position_step (lexer_position lx1) s',
                lexer_index := lexer_index lx1 + length s'\<rparr>"
    and t2: "take (length s') (drop (lexer_index lx1) (lexer_text lx1)) = s'"
    and l2: "lexer_index lx1 + length s' \<le> length (lexer_text lx1)"
    by (simp_all add: reads_def)
  have "take (length s + length s') (drop (lexer_index lx) (lexer_text lx))
        = take (length s) (drop (lexer_index lx) (lexer_text lx))
          @ take (length s') (drop (lexer_index lx + length s) (lexer_text lx))"
    by (simp add: take_add add.commute)
  also have "\<dots> = s @ s'" using t1 t2 1 by simp
  finally have t: "take (length (s @ s')) (drop (lexer_index lx) (lexer_text lx)) = s @ s'" by simp
  show ?thesis
    unfolding reads_def using t l2 by (simp add: 1 2 add.assoc)
qed

lemma reads_advance:
  "lexer_index lx < length (lexer_text lx) \<Longrightarrow>
   advance lx (Suc 0) = Inr lx' \<Longrightarrow> reads lx [lexer_text lx ! lexer_index lx] lx'"
  by (auto simp: advance_Suc0 reads_def take_Suc hd_drop_conv_nth)

lemma reads_pop_c:
  "pop_c lx = Inr (Some c, lx') \<Longrightarrow> reads lx [c] lx'"
proof -
  assume p: "pop_c lx = Inr (Some c, lx')"
  then have lt: "lexer_index lx < length (lexer_text lx)"
    by (auto simp: pop_c_def Let_def split: if_splits)
  with p have "advance lx (Suc 0) = Inr lx'" and "c = lexer_text lx ! lexer_index lx"
    by (auto simp: pop_c_def Let_def split: if_splits sum.splits)
  with reads_advance[OF lt] show ?thesis by simp
qed

lemma pop_c_None: "pop_c lx = Inr (None, lx') \<Longrightarrow> lx' = lx"
  by (auto simp: pop_c_def Let_def split: if_splits sum.splits)

lemma reads_le: "reads lx s lx' \<Longrightarrow> lexer_index lx' \<le> length (lexer_text lx')"
  by (simp add: reads_def)

lemma get_while_loop_reads:
  "get_while_loop cond res lx = Inr (res', lx') \<Longrightarrow> lexer_index lx \<le> length (lexer_text lx) \<Longrightarrow>
   \<exists>s. res' = res @ s \<and> reads lx s lx'"
proof (induction cond res lx rule: get_while_loop.induct)
  case (1 cond res lx)
  show ?case
  proof (cases "peek_c lx")
    case None
    with "1.prems" show ?thesis
      by (subst (asm) get_while_loop.simps) (auto simp: reads_refl)
  next
    case (Some c)
    then have lt: "lexer_index lx < length (lexer_text lx)" and c: "c = lexer_text lx ! lexer_index lx"
      by (auto simp: peek_c_def split: if_splits)
    show ?thesis
    proof (cases "cond c")
      case False
      with "1.prems" Some show ?thesis
        by (subst (asm) get_while_loop.simps) (auto simp: reads_refl)
    next
      case True
      obtain lx1 where a: "advance lx 1 = Inr lx1" using lt by (simp add: advance_Suc0)
      then have r1: "reads lx [c] lx1" using reads_advance[OF lt] c by simp
      from "1.prems"(1) Some True a have "get_while_loop cond (res @ [c]) lx1 = Inr (res', lx')"
        by (subst (asm) get_while_loop.simps) simp
      from "1.IH"[OF Some _ a this] True reads_le[OF r1]
      obtain s where "res' = (res @ [c]) @ s" "reads lx1 s lx'" by auto
      with reads_trans[OF r1] show ?thesis by auto
    qed
  qed
qed

lemma get_while_reads:
  "get_while cond lx = Inr (res, lx') \<Longrightarrow> lexer_index lx \<le> length (lexer_text lx) \<Longrightarrow> reads lx res lx'"
  using get_while_loop_reads[of cond "[]" lx res lx'] by (simp add: get_while_def)

lemma comment_loop_reads:
  "comment_loop n lx = Some (Inr lx') \<Longrightarrow> lexer_index lx \<le> length (lexer_text lx) \<Longrightarrow>
   \<exists>s. reads lx s lx'"
proof (induction n arbitrary: lx)
  case 0
  then show ?case by simp
next
  case (Suc n)
  show ?case
  proof (cases "pop_c lx")
    case (Inl e)
    with Suc.prems show ?thesis by simp
  next
    case (Inr r)
    obtain c lx1 where r: "r = (c, lx1)" by (cases r)
    show ?thesis
    proof (cases c)
      case None
      with Inr r have "lx1 = lx" by (simp add: pop_c_None)
      with Suc.prems Inr r None have "comment_loop n lx = Some (Inr lx')" by simp
      from Suc.IH[OF this Suc.prems(2)] show ?thesis .
    next
      case (Some ch)
      with Inr r have r1: "reads lx [ch] lx1" by (simp add: reads_pop_c)
      show ?thesis
      proof (cases "ch = CHR 0x0A")
        case True
        with Suc.prems Inr r Some have "lx' = lx1" by simp
        with r1 show ?thesis by blast
      next
        case False
        with Suc.prems Inr r Some have "comment_loop n lx1 = Some (Inr lx')" by simp
        from Suc.IH[OF this reads_le[OF r1]] reads_trans[OF r1] show ?thesis by blast
      qed
    qed
  qed
qed

lemma eat_spaces_reads:
  "eat_spaces n lx = Some (Inr lx') \<Longrightarrow> lexer_index lx \<le> length (lexer_text lx) \<Longrightarrow>
   \<exists>s. reads lx s lx'"
proof (induction n arbitrary: lx)
  case 0
  then show ?case by simp
next
  case (Suc n)
  show ?case
  proof (cases "get_while isspace lx")
    case (Inl e)
    with Suc.prems show ?thesis by simp
  next
    case (Inr r)
    obtain spaces lx1 where r: "r = (spaces, lx1)" by (cases r)
    with Inr Suc.prems(2) have r1: "reads lx spaces lx1" by (simp add: get_while_reads)
    note le1 = reads_le[OF r1]
    show ?thesis
    proof (cases "peek_c lx1")
      case None
      with Suc.prems Inr r have "lx' = lx1" by simp
      with r1 show ?thesis by blast
    next
      case (Some next_char)
      then have lt: "lexer_index lx1 < length (lexer_text lx1)"
        by (auto simp: peek_c_def split: if_splits)
      show ?thesis
      proof (cases "next_char = CHR ''#''")
        case True
        obtain lx2 where a: "advance lx1 (Suc 0) = Inr lx2" using lt by (simp add: advance_Suc0)
        from reads_advance[OF lt a] obtain s2 where r2: "reads lx1 s2 lx2" by blast
        from Suc.prems(1) Inr r Some True a
        obtain lx3 where c: "comment_loop n lx2 = Some (Inr lx3)" and e: "eat_spaces n lx3 = Some (Inr lx')"
          by (auto split: option.splits sum.splits)
        from comment_loop_reads[OF c reads_le[OF r2]] obtain s3 where r3: "reads lx2 s3 lx3" by blast
        from Suc.IH[OF e reads_le[OF r3]] obtain s4 where r4: "reads lx3 s4 lx'" by blast
        from reads_trans[OF reads_trans[OF reads_trans[OF r1 r2] r3] r4] show ?thesis by blast
      next
        case False
        show ?thesis
        proof (cases "spaces = []")
          case True
          with Suc.prems Inr r Some False have "lx' = lx1" by simp
          with r1 show ?thesis by blast
        next
          case nonempty: False
          with Suc.prems(1) Inr r Some False have "eat_spaces n lx1 = Some (Inr lx')" by simp
          from Suc.IH[OF this le1] reads_trans[OF r1] show ?thesis by blast
        qed
      qed
    qed
  qed
qed

lemma reads_ok:
  assumes "reads lx s lx'" and "lexer_ok lx"
  shows "lexer_ok lx' \<and> lexer_text lx' = lexer_text lx \<and> lexer_buffer lx' = lexer_buffer lx
       \<and> take (lexer_index lx') (lexer_text lx) = take (lexer_index lx) (lexer_text lx) @ s"
proof -
  from assms(1) have 1: "lx' = lx\<lparr>lexer_position := foldl position_step (lexer_position lx) s,
                lexer_index := lexer_index lx + length s\<rparr>"
    and t: "take (length s) (drop (lexer_index lx) (lexer_text lx)) = s"
    and l: "lexer_index lx + length s \<le> length (lexer_text lx)"
    by (simp_all add: reads_def)
  have tk: "take (lexer_index lx + length s) (lexer_text lx) = take (lexer_index lx) (lexer_text lx) @ s"
    using t by (simp add: take_add)
  from assms(2) have p: "lexer_position lx = position_after (take (lexer_index lx) (lexer_text lx))"
    by (simp add: lexer_ok_def)
  show ?thesis using l tk p by (simp add: 1 lexer_ok_def position_after_def)
qed

lemma pop_number_reads:
  assumes "pop_number neg c lx = Inr (Some t, lx')" and "lexer_index lx \<le> length (lexer_text lx)"
  shows "\<exists>s. reads lx s lx' \<and> position t = lexer_position lx'
           \<and> content t = (if neg then ''-'' else []) @ c # s"
proof -
  from assms(1) obtain digits lx1 where g: "get_while isnumeric lx = Inr (digits, lx1)"
    by (auto simp: pop_number_def split: sum.splits)
  from get_while_reads[OF g assms(2)] have r1: "reads lx digits lx1" .
  show ?thesis
  proof (cases "peek_c lx1 = Some (CHR ''.'')")
    case True
    then have lt: "lexer_index lx1 < length (lexer_text lx1)" and dot: "lexer_text lx1 ! lexer_index lx1 = CHR ''.''"
      by (auto simp: peek_c_def split: if_splits)
    obtain lx2 where a: "advance lx1 (Suc 0) = Inr lx2" using lt by (simp add: advance_Suc0)
    from reads_advance[OF lt a] dot have r2: "reads lx1 ''.'' lx2" by simp
    from assms(1) g True a obtain rp lx3 where g2: "get_while isnumeric lx2 = Inr (rp, lx3)"
      by (auto simp: pop_number_def split: sum.splits)
    from get_while_reads[OF g2 reads_le[OF r2]] have r3: "reads lx2 rp lx3" .
    from assms(1) g True a g2 have "rp \<noteq> []" and "lx' = lx3"
      and "t = create_token lx3 NUMBER ((if neg then ''-'' else []) @ c # digits @ ''.'' @ rp)"
      by (auto simp: pop_number_def Let_def split: if_splits)
    moreover have "reads lx (digits @ ''.'' @ rp) lx3"
      using reads_trans[OF r1 reads_trans[OF r2 r3]] by simp
    ultimately show ?thesis by (auto simp: create_token_def)
  next
    case False
    with assms(1) g have "lx' = lx1"
      and "t = create_token lx1 NUMBER ((if neg then ''-'' else []) @ c # digits)"
      by (auto simp: pop_number_def Let_def split: if_splits)
    with r1 show ?thesis by (auto simp: create_token_def)
  qed
qed

lemma pop_token_reads:
  assumes "pop_token lx = Inr (Some t, lx')" and le: "lexer_index lx \<le> length (lexer_text lx)"
  shows "\<exists>s pre. reads lx s lx' \<and> position t = lexer_position lx' \<and> s = pre @ content t"
proof (cases "pop_c lx")
  case (Inl e)
  with assms(1) show ?thesis by (simp add: pop_token_def)
next
  case (Inr r)
  obtain co lx1 where r: "r = (co, lx1)" by (cases r)
  show ?thesis
  proof (cases co)
    case None
    with Inr r have "lx1 = lx" by (simp add: pop_c_None)
    with assms(1) Inr r None have "lx' = lx" "t = create_token lx EOF []"
      by (auto simp: pop_token_def)
    then show ?thesis using reads_refl[OF le] by (auto simp: create_token_def)
  next
    case (Some c)
    with Inr r have r1: "reads lx [c] lx1" by (simp add: reads_pop_c)
    note le1 = reads_le[OF r1]
    from assms(1) Inr r Some have pt: "pop_token lx = Inr (Some t, lx')" and pc: "pop_c lx = Inr (Some c, lx1)"
      by simp_all
    consider (brace) "c = CHR ''['' \<or> c = CHR '']''"
      | (ident) "c \<noteq> CHR ''[''" "c \<noteq> CHR '']''" "isalpha c"
      | (symbol) "c \<noteq> CHR ''[''" "c \<noteq> CHR '']''" "\<not> isalpha c" "c = CHR '':''"
      | (other) "c \<noteq> CHR ''[''" "c \<noteq> CHR '']''" "\<not> isalpha c" "c \<noteq> CHR '':''"
      by blast
    then show ?thesis
    proof cases
      case brace
      with pt pc have "lx' = lx1" "content t = []" "position t = lexer_position lx1"
        by (auto simp: pop_token_def create_token_def split: if_splits)
      with r1 show ?thesis by auto
    next
      case ident
      with pt pc obtain rest lx2 where g: "get_while is_identifier_char lx1 = Inr (rest, lx2)"
        by (auto simp: pop_token_def split: sum.splits)
      from get_while_reads[OF g le1] have r2: "reads lx1 rest lx2" .
      from pt pc ident g have "lx' = lx2" "position t = lexer_position lx2"
        "content t = [] \<or> content t = c # rest"
        by (auto simp: pop_token_def create_token_def Let_def split: option.splits)
      moreover have "reads lx (c # rest) lx2" using reads_trans[OF r1 r2] by simp
      ultimately show ?thesis by auto
    next
      case symbol
      with pt pc obtain rest lx2 where g: "get_while is_identifier_char lx1 = Inr (rest, lx2)"
        by (auto simp: pop_token_def split: sum.splits)
      from get_while_reads[OF g le1] have r2: "reads lx1 rest lx2" .
      from pt pc symbol g have "lx' = lx2" "position t = lexer_position lx2" "content t = c # rest"
        by (auto simp: pop_token_def create_token_def Let_def)
      moreover have "reads lx (c # rest) lx2" using reads_trans[OF r1 r2] by simp
      ultimately show ?thesis by auto
    next
      case other
      show ?thesis
      proof (cases "c = CHR ''-''")
        case True
        with pt pc other obtain c1 lx2 where p2: "pop_c lx1 = Inr (Some c1, lx2)"
          and pn: "pop_number True c1 lx2 = Inr (Some t, lx')"
          by (auto simp: pop_token_def Let_def split: sum.splits option.splits if_splits)
        from reads_pop_c[OF p2] have r2: "reads lx1 [c1] lx2" .
        from pop_number_reads[OF pn reads_le[OF r2]] obtain s where
          r3: "reads lx2 s lx'" and po: "position t = lexer_position lx'" and co: "content t = ''-'' @ c1 # s"
          by auto
        have "reads lx ([c] @ [c1] @ s) lx'" using reads_trans[OF r1 reads_trans[OF r2 r3]] by simp
        with po co True show ?thesis by auto
      next
        case False
        with pt pc other have pn: "pop_number False c lx1 = Inr (Some t, lx')"
          by (auto simp: pop_token_def Let_def split: sum.splits option.splits if_splits)
        from pop_number_reads[OF pn le1] obtain s where
          r3: "reads lx1 s lx'" and po: "position t = lexer_position lx'" and co: "content t = c # s"
          by auto
        have "reads lx (c # s) lx'" using reads_trans[OF r1 r3] by simp
        with po co show ?thesis by auto
      qed
    qed
  qed
qed


text \<open>
  Every lexer state reached from a new lexer has the position of its index: a new lexer
  has, and \<^verbatim>\<open>pop\<close> keeps it, whatever it returns.
\<close>

lemma lexer_ok_Lexer: "lexer_ok (Lexer txt)"
  by (simp add: lexer_ok_def Lexer_def position_after_def)

lemma pop_number_moves:
  assumes "pop_number neg c lx = Inr (r, lx')" and "lexer_index lx \<le> length (lexer_text lx)"
  shows "\<exists>s. reads lx s lx'"
proof -
  from assms(1) obtain digits lx1 where g: "get_while isnumeric lx = Inr (digits, lx1)"
    by (auto simp: pop_number_def split: sum.splits)
  from get_while_reads[OF g assms(2)] have r1: "reads lx digits lx1" .
  show ?thesis
  proof (cases "peek_c lx1 = Some (CHR ''.'')")
    case True
    then have lt: "lexer_index lx1 < length (lexer_text lx1)"
      by (auto simp: peek_c_def split: if_splits)
    obtain lx2 where a: "advance lx1 (Suc 0) = Inr lx2" using lt by (simp add: advance_Suc0)
    from reads_advance[OF lt a] obtain s2 where r2: "reads lx1 s2 lx2" by blast
    from assms(1) g True a obtain rp lx3 where g2: "get_while isnumeric lx2 = Inr (rp, lx3)"
      by (auto simp: pop_number_def split: sum.splits)
    from get_while_reads[OF g2 reads_le[OF r2]] have r3: "reads lx2 rp lx3" .
    from assms(1) g True a g2 have "lx' = lx3"
      by (auto simp: pop_number_def Let_def split: if_splits)
    with reads_trans[OF r1 reads_trans[OF r2 r3]] show ?thesis by blast
  next
    case False
    with assms(1) g have "lx' = lx1"
      by (auto simp: pop_number_def Let_def split: if_splits)
    with r1 show ?thesis by blast
  qed
qed

lemma pop_token_moves:
  assumes "pop_token lx = Inr (r, lx')" and le: "lexer_index lx \<le> length (lexer_text lx)"
  shows "\<exists>s. reads lx s lx'"
proof (cases "pop_c lx")
  case (Inl e)
  with assms(1) show ?thesis by (simp add: pop_token_def)
next
  case (Inr q)
  obtain co lx1 where q: "q = (co, lx1)" by (cases q)
  show ?thesis
  proof (cases co)
    case None
    with Inr q have "lx1 = lx" by (simp add: pop_c_None)
    with assms(1) Inr q None have "lx' = lx" by (auto simp: pop_token_def)
    then show ?thesis using reads_refl[OF le] by blast
  next
    case (Some c)
    with Inr q have r1: "reads lx [c] lx1" by (simp add: reads_pop_c)
    note le1 = reads_le[OF r1]
    from Inr q Some have pc: "pop_c lx = Inr (Some c, lx1)" by simp
    note pt = assms(1)
    consider (brace) "c = CHR ''['' \<or> c = CHR '']''"
      | (word) "c \<noteq> CHR ''[''" "c \<noteq> CHR '']''" "isalpha c \<or> c = CHR '':''"
      | (other) "c \<noteq> CHR ''[''" "c \<noteq> CHR '']''" "\<not> isalpha c" "c \<noteq> CHR '':''"
      by blast
    then show ?thesis
    proof cases
      case brace
      with pt pc have "lx' = lx1" by (auto simp: pop_token_def split: if_splits)
      with r1 show ?thesis by blast
    next
      case word
      with pt pc obtain rest lx2 where g: "get_while is_identifier_char lx1 = Inr (rest, lx2)"
        by (auto simp: pop_token_def split: sum.splits if_splits)
      from get_while_reads[OF g le1] have r2: "reads lx1 rest lx2" .
      from pt pc word g have "lx' = lx2"
        by (auto simp: pop_token_def Let_def split: option.splits if_splits)
      with reads_trans[OF r1 r2] show ?thesis by blast
    next
      case other
      show ?thesis
      proof (cases "c = CHR ''-''")
        case True
        with pt pc other obtain c1 lx2 where p2: "pop_c lx1 = Inr (Some c1, lx2)"
          and pn: "pop_number True c1 lx2 = Inr (r, lx')"
          by (auto simp: pop_token_def Let_def split: sum.splits option.splits if_splits)
        from reads_pop_c[OF p2] have r2: "reads lx1 [c1] lx2" .
        from pop_number_moves[OF pn reads_le[OF r2]] obtain s where r3: "reads lx2 s lx'" by blast
        from reads_trans[OF r1 reads_trans[OF r2 r3]] show ?thesis by blast
      next
        case False
        show ?thesis
        proof (cases "isnumeric c")
          case True
          with pt pc other False have pn: "pop_number False c lx1 = Inr (r, lx')"
            by (auto simp: pop_token_def Let_def)
          from pop_number_moves[OF pn le1] reads_trans[OF r1] show ?thesis by blast
        next
          case nonnum: False
          with pt pc other False have "lx' = lx1" by (auto simp: pop_token_def Let_def)
          with r1 show ?thesis by blast
        qed
      qed
    qed
  qed
qed

lemma pop_keeps_ok:
  assumes "pop n lx = Some (Inr (r, lx'))" and "lexer_ok lx"
  shows "lexer_ok lx' \<and> lexer_text lx' = lexer_text lx"
proof (cases "lexer_buffer lx")
  case Nil
  from assms(2) have le: "lexer_index lx \<le> length (lexer_text lx)" by (simp add: lexer_ok_def)
  from assms(1) Nil obtain lx1 where e: "eat_spaces n lx = Some (Inr lx1)"
    and p: "pop_token lx1 = Inr (r, lx')"
    by (auto split: option.splits sum.splits)
  from eat_spaces_reads[OF e le] obtain s0 where r0: "reads lx s0 lx1" by blast
  from pop_token_moves[OF p reads_le[OF r0]] obtain s where r1: "reads lx1 s lx'" by blast
  from reads_ok[OF reads_trans[OF r0 r1] assms(2)] show ?thesis by simp
next
  case (Cons t rest)
  with assms show ?thesis by (auto simp: lexer_ok_def)
qed

lemma at_char:
  assumes "drop (lexer_index lx) (lexer_text lx) = x # xs"
  shows "peek_c lx = Some x"
    and "advance lx (Suc 0) = Inr (lx\<lparr>lexer_position := position_step (lexer_position lx) x,
                                       lexer_index := Suc (lexer_index lx)\<rparr>)"
    and "pop_c lx = Inr (Some x, lx\<lparr>lexer_position := position_step (lexer_position lx) x,
                                       lexer_index := Suc (lexer_index lx)\<rparr>)"
    and "drop (Suc (lexer_index lx)) (lexer_text lx) = xs"
proof -
  from assms have lt: "lexer_index lx < length (lexer_text lx)"
    by (metis drop_eq_Nil2 list.distinct(1) not_le)
  then have "drop (lexer_index lx) (lexer_text lx)
      = lexer_text lx ! lexer_index lx # drop (Suc (lexer_index lx)) (lexer_text lx)"
    by (simp add: Cons_nth_drop_Suc)
  with assms have x: "lexer_text lx ! lexer_index lx = x"
    and d: "drop (Suc (lexer_index lx)) (lexer_text lx) = xs" by auto
  show "peek_c lx = Some x" using lt x by (simp add: peek_c_def)
  show "advance lx (Suc 0) = Inr (lx\<lparr>lexer_position := position_step (lexer_position lx) x,
                                       lexer_index := Suc (lexer_index lx)\<rparr>)"
    using lt x by (simp add: advance_Suc0)
  show "pop_c lx = Inr (Some x, lx\<lparr>lexer_position := position_step (lexer_position lx) x,
                                       lexer_index := Suc (lexer_index lx)\<rparr>)"
    using lt x by (simp add: pop_c_inside)
  show "drop (Suc (lexer_index lx)) (lexer_text lx) = xs" by (rule d)
qed

lemma get_while_stops:
  assumes "drop (lexer_index lx) (lexer_text lx) = rest" and "rest = [] \<or> \<not> cond (hd rest)"
  shows "get_while cond lx = Inr ([], lx)"
  using get_while_loop_span[of lx "[]" rest cond "[]"] assms by (simp add: get_while_def)

lemma isnumeric_other:
  "isnumeric c \<Longrightarrow> \<not> isspace c \<and> c \<noteq> CHR ''#'' \<and> c \<noteq> CHR ''['' \<and> c \<noteq> CHR '']''
     \<and> \<not> isalpha c \<and> c \<noteq> CHR '':'' \<and> c \<noteq> CHR ''-''"
  by (auto simp: isnumeric_def isspace_def isalpha_def Let_def)

lemma minus_other:
  "\<not> isspace (CHR ''-'') \<and> \<not> isalpha (CHR ''-'') \<and> \<not> isnumeric (CHR ''.'')"
  by (simp add: isnumeric_def isspace_def isalpha_def)

lemma eat_spaces_at_token:
  assumes "drop (lexer_index lx) (lexer_text lx) = x # xs" and "\<not> isspace x" and "x \<noteq> CHR ''#''"
  shows "eat_spaces (Suc n) lx = Some (Inr lx)"
proof -
  have "get_while isspace lx = Inr ([], lx)"
    using get_while_stops[of lx "x # xs" isspace] assms(1,2) by simp
  then show ?thesis using at_char(1)[OF assms(1)] assms(3) by simp
qed

lemma pop_number_no_fraction:
  assumes "drop (lexer_index lx) (lexer_text lx) = ds @ ''.'' @ rest"
    and "\<forall>c \<in> set ds. isnumeric c" and "rest = [] \<or> \<not> isnumeric (hd rest)"
  shows "pop_number neg c lx
         = Inr (None, lx\<lparr>lexer_position := foldl position_step (lexer_position lx) (ds @ ''.''),
                          lexer_index := lexer_index lx + length ds + 1\<rparr>)"
proof -
  let ?lx1 = "lx\<lparr>lexer_position := foldl position_step (lexer_position lx) ds,
                 lexer_index := lexer_index lx + length ds\<rparr>"
  have g: "get_while isnumeric lx = Inr (ds, ?lx1)"
    using get_while_loop_span[of lx ds "''.'' @ rest" isnumeric "[]"] assms(1,2)
    by (simp add: get_while_def minus_other)
  have d1: "drop (lexer_index ?lx1) (lexer_text ?lx1) = CHR ''.'' # rest"
    using assms(1) by (simp add: add.commute[of "lexer_index lx"] drop_drop[symmetric] del: drop_drop)
  let ?lx2 = "?lx1\<lparr>lexer_position := position_step (lexer_position ?lx1) (CHR ''.''),
                 lexer_index := Suc (lexer_index ?lx1)\<rparr>"
  have d2: "drop (lexer_index ?lx2) (lexer_text ?lx2) = rest"
    using at_char(4)[OF d1] by simp
  have g2: "get_while isnumeric ?lx2 = Inr ([], ?lx2)"
    using get_while_stops[of ?lx2 rest isnumeric] d2 assms(3) by blast
  show ?thesis
    unfolding pop_number_def
    by (simp only: g at_char(1,2)[OF d1] g2 sum.case prod.case Let_def if_True One_nat_def) simp
qed


subsection \<open>Comments\<close>

text \<open>A comment that ends with a newline is skipped, with the blanks after it.\<close>

lemma terminated_comment_is_skipped:
  "eat_spaces 6 (Lexer (''# c'' @ [CHR 0x0A] @ '' x''))
     = Some (Inr \<lparr>lexer_text = ''# c'' @ [CHR 0x0A] @ '' x'',
                   lexer_position = \<lparr>line_num = 2, char = 1\<rparr>,
                   lexer_index = 5, lexer_buffer = []\<rparr>)"
  by code_simp

text \<open>
  Claim C4 says that skipping whitespace and comments ends on every input, a comment
  running to the end of the input included. The comment loop of \<^verbatim>\<open>eat_spaces\<close> leaves
  only on a newline: on the text \<^verbatim>\<open># done\<close>, which ends inside a comment,
  \<^verbatim>\<open>eat_spaces\<close> has not returned after any number of rounds.
\<close>

theorem unterminated_comment_never_ends: "eat_spaces n (Lexer ''# done'') = None"
  by (rule eat_spaces_unterminated_comment) simp

subsection \<open>Token positions\<close>

text \<open>
  Claim C10. A token that \<^verbatim>\<open>pop\<close> reads from the text (the buffer being empty) carries
  the position of the lexer after the token's characters are consumed: it is the position
  of the lexer that \<^verbatim>\<open>pop\<close> leaves, which is the position reached after reading the
  text up to the lexer's index, and the token's content is the end of the text read so
  far. The position is a value of the token, which later lexing has no access to.
\<close>

theorem token_position_is_past_its_text:
  assumes "lexer_ok lx" and "lexer_buffer lx = []" and "pop n lx = Some (Inr (Some t, lx'))"
  shows "position t = lexer_position lx'
       \<and> lexer_text lx' = lexer_text lx
       \<and> position t = position_after (take (lexer_index lx') (lexer_text lx))
       \<and> (\<exists>pre. take (lexer_index lx') (lexer_text lx) = pre @ content t)"
proof -
  from assms(1) have le: "lexer_index lx \<le> length (lexer_text lx)" by (simp add: lexer_ok_def)
  from assms(2,3) obtain lx1 where e: "eat_spaces n lx = Some (Inr lx1)"
    and p: "pop_token lx1 = Inr (Some t, lx')"
    by (auto split: option.splits sum.splits)
  from eat_spaces_reads[OF e le] obtain s0 where r0: "reads lx s0 lx1" by blast
  from pop_token_reads[OF p reads_le[OF r0]] obtain s pre where
    r1: "reads lx1 s lx'" and po: "position t = lexer_position lx'" and s: "s = pre @ content t"
    by blast
  from reads_ok[OF reads_trans[OF r0 r1] assms(1)]
  have ok: "lexer_ok lx'" and tx: "lexer_text lx' = lexer_text lx"
    and tk: "take (lexer_index lx') (lexer_text lx) = take (lexer_index lx) (lexer_text lx) @ s0 @ s"
    by simp_all
  from ok tx po have "position t = position_after (take (lexer_index lx') (lexer_text lx))"
    by (simp add: lexer_ok_def)
  moreover have "take (lexer_index lx') (lexer_text lx)
      = (take (lexer_index lx) (lexer_text lx) @ s0 @ pre) @ content t"
    using tk s by simp
  ultimately show ?thesis using po tx by blast
qed


theorem token_position_is_past_its_text_witness:
  "pop 1 (Lexer ''['')
     = Some (Inr (Some \<lparr>kind = LBRACE, position = \<lparr>line_num = 1, char = 1\<rparr>, content = []\<rparr>,
         \<lparr>lexer_text = ''['', lexer_position = \<lparr>line_num = 1, char = 1\<rparr>,
            lexer_index = 1, lexer_buffer = []\<rparr>))
   \<and> position_after ''['' = \<lparr>line_num = 1, char = 1\<rparr>"
proof -
  let ?t = "\<lparr>kind = LBRACE, position = \<lparr>line_num = 1, char = 1\<rparr>, content = []\<rparr>"
  let ?lx' = "\<lparr>lexer_text = ''['', lexer_position = \<lparr>line_num = 1, char = 1\<rparr>,
            lexer_index = 1, lexer_buffer = []\<rparr>"
  have ok: "lexer_ok (Lexer ''['')" by (rule lexer_ok_Lexer)
  have buf: "lexer_buffer (Lexer ''['') = []" by (simp add: Lexer_def)
  have p: "pop 1 (Lexer ''['') = Some (Inr (Some ?t, ?lx'))" by code_simp
  from token_position_is_past_its_text[OF ok buf p] p show ?thesis
    by (simp add: Lexer_def)
qed

subsection \<open>Numerals with a dot and no digit after it\<close>

text \<open>
  Claim C5 says that lexing such a numeral fails with a lexer error and never silently
  yields a non-token result. On \<^verbatim>\<open>12.\<close> the lexer raises nothing: \<^verbatim>\<open>pop\<close> returns
  \<^verbatim>\<open>None\<close> in place of a token, with the three characters consumed.
\<close>

theorem dot_without_digit_raises_nothing:
  "pop 1 (Lexer ''12.'')
     = Some (Inr (None, \<lparr>lexer_text = ''12.'', lexer_position = \<lparr>line_num = 1, char = 3\<rparr>,
                          lexer_index = 3, lexer_buffer = []\<rparr>))"
  by code_simp

text \<open>
  Claim C5, amended. When the text at the lexer's index is a numeral (digits, after an
  optional \<^verbatim>\<open>-\<close>) followed by a dot that no digit follows, \<^verbatim>\<open>pop\<close> raises no error
  and returns no token, truncated or other: it returns \<^verbatim>\<open>None\<close>, having consumed the
  sign, the digits and the dot.
\<close>

theorem malformed_numeral_gives_no_token:
  assumes "lexer_buffer lx = []"
    and "drop (lexer_index lx) (lexer_text lx) = sign @ ds @ ''.'' @ rest"
    and "sign = [] \<or> sign = ''-''"
    and "ds \<noteq> []" and "\<forall>c \<in> set ds. isnumeric c"
    and "rest = [] \<or> \<not> isnumeric (hd rest)"
  shows "pop (Suc n) lx
         = Some (Inr (None,
             lx\<lparr>lexer_position := foldl position_step (lexer_position lx) (sign @ ds @ ''.''),
                lexer_index := lexer_index lx + length (sign @ ds @ ''.'')\<rparr>))"
proof -
  obtain d ds' where ds: "ds = d # ds'" using assms(4) by (cases ds) auto
  with assms(5) have dn: "isnumeric d" and dsn: "\<forall>c \<in> set ds'. isnumeric c" by auto
  note dfacts = isnumeric_other[OF dn]
  show ?thesis
  proof (cases "sign = []")
    case True
    with assms(2) ds have d0: "drop (lexer_index lx) (lexer_text lx) = d # (ds' @ ''.'' @ rest)" by simp
    have e: "eat_spaces (Suc n) lx = Some (Inr lx)"
      by (rule eat_spaces_at_token[OF d0]) (use dfacts in auto)
    let ?lx1 = "lx\<lparr>lexer_position := position_step (lexer_position lx) d,
                   lexer_index := Suc (lexer_index lx)\<rparr>"
    have d1: "drop (lexer_index ?lx1) (lexer_text ?lx1) = ds' @ ''.'' @ rest"
      using at_char(4)[OF d0] by simp
    have "pop_token lx = pop_number False d ?lx1"
      using dfacts dn by (simp add: pop_token_def at_char(3)[OF d0])
    also note pop_number_no_fraction[OF d1 dsn assms(6), of False d]
    finally show ?thesis using assms(1) e True ds by simp
  next
    case False
    with assms(3) have sg: "sign = ''-''" by simp
    with assms(2) ds have d0: "drop (lexer_index lx) (lexer_text lx) = CHR ''-'' # (d # ds' @ ''.'' @ rest)" by simp
    have e: "eat_spaces (Suc n) lx = Some (Inr lx)"
      by (rule eat_spaces_at_token[OF d0]) (simp_all add: minus_other)
    let ?lx1 = "lx\<lparr>lexer_position := position_step (lexer_position lx) (CHR ''-''),
                   lexer_index := Suc (lexer_index lx)\<rparr>"
    have d1: "drop (lexer_index ?lx1) (lexer_text ?lx1) = d # (ds' @ ''.'' @ rest)"
      using at_char(4)[OF d0] by simp
    let ?lx2 = "?lx1\<lparr>lexer_position := position_step (lexer_position ?lx1) d,
                   lexer_index := Suc (lexer_index ?lx1)\<rparr>"
    have d2: "drop (lexer_index ?lx2) (lexer_text ?lx2) = ds' @ ''.'' @ rest"
      using at_char(4)[OF d1] by simp
    have "pop_token lx = pop_number True d ?lx2"
      using dn by (simp add: pop_token_def at_char(3)[OF d0] at_char(3)[OF d1] minus_other)
    also note pop_number_no_fraction[OF d2 dsn assms(6), of True d]
    finally show ?thesis using assms(1) e sg ds by simp
  qed
qed

theorem malformed_numeral_gives_no_token_witness:
  "pop (Suc 0) (Lexer ''-3.x'')
     = Some (Inr (None, \<lparr>lexer_text = ''-3.x'', lexer_position = \<lparr>line_num = 1, char = 3\<rparr>,
                          lexer_index = 3, lexer_buffer = []\<rparr>))"
  using malformed_numeral_gives_no_token[of "Lexer ''-3.x''" "''-''" "''3''" "''x''" 0]
  by (simp add: Lexer_def isnumeric_def position_step_def)

section \<open>Properties of the parser\<close>

text \<open>
  Claim C6 says that \<^verbatim>\<open>ROTATE\<close>, \<^verbatim>\<open>FORWARD\<close> and \<^verbatim>\<open>BACKWARD\<close> not followed by a
  number or a symbol make parsing fail. \<^verbatim>\<open>parse_instruction\<close> stores what
  \<^verbatim>\<open>parse_expression\<close> returns without testing it: each keyword alone parses, to a
  node whose argument is \<^verbatim>\<open>None\<close>, whatever the conversion of literals is.
\<close>

theorem keyword_without_argument_parses:
  "parse 4 float_of ''forward'' = Some (Inr (Block [Forward ENone]))
   \<and> parse 4 float_of ''rotate'' = Some (Inr (Block [Rotate ENone]))
   \<and> parse 4 float_of ''backward'' = Some (Inr (Block [Backward ENone]))"
  by code_simp

end
